theory Spec2Isabelle
  imports Main
begin

section \<open>Tool usage of an agent: data model\<close>

text \<open>
  The development embeds the class \<open>ToolUsage\<close> of \<open>crewai/tools/tool_usage.py\<close>.
  Python values that the class only passes around (tool outputs, cached values, argument
  values) are a small datatype with Python's truth-value test, which the class applies to
  the value read from the cache.
\<close>

datatype pyval = PyNone | PyBool bool | PyInt int | PyStr string

fun truthy :: "pyval \<Rightarrow> bool" where
  "truthy PyNone = False"
| "truthy (PyBool b) = b"
| "truthy (PyInt i) = (i \<noteq> 0)"
| "truthy (PyStr s) = (s \<noteq> [])"

text \<open>A raised exception, with its message.\<close>

datatype exn = Exception string

text \<open>
  \<open>ToolCalling\<close> (a pydantic model declared outside this file): the name of the tool and
  a dictionary of arguments. Equality of two calls is equality of both fields; a dictionary
  is a map, so the order of its keys is irrelevant.
\<close>

record ToolCalling =
  function_name :: string
  arguments :: "string \<rightharpoonup> pyval"

text \<open>
  \<open>BaseTool\<close> (declared by langchain): what the class uses of a tool is its \<open>name\<close>, its
  \<open>description\<close>, its argument schema \<open>args\<close> (a dictionary of dictionaries, in insertion
  order) and its action \<open>_run\<close>, which takes the arguments as keywords and returns a value
  or raises.
\<close>

record BaseTool =
  name :: string
  description :: string
  args :: "(string \<times> (string \<times> pyval) list) list"
  run :: "(string \<rightharpoonup> pyval) \<Rightarrow> exn + pyval"

text \<open>
  The calls the class makes on its collaborators, in the order it makes them. The trace is
  how the model observes that an action was, or was not, carried out.
\<close>

datatype event =
    OnToolStart ToolCalling
  | CacheRead string "string \<rightharpoonup> pyval"
  | ToolRun string "string \<rightharpoonup> pyval"
  | OnToolEnd ToolCalling pyval
  | PrinterPrint string string
  | TelemetryToolUsage string int
  | TelemetryToolUsageError

text \<open>
  The collaborators are not part of the file; they are parameters of the model.
  \<^item> \<open>chain_invoke k available_tools tool_string\<close> is what the chain
    \<open>prompt | llm | parser\<close> answers at its \<open>k\<close>-th invocation (counted from 0): a
    \<open>ToolCalling\<close>, or the exception it raises.
  \<^item> \<open>last_used_tool\<close>, \<open>on_tool_start\<close>, \<open>on_tool_end\<close> and \<open>cache_read\<close> are the
    attribute and the methods of the tools handler of type \<open>'h\<close> (\<open>cache_read\<close> is
    \<open>tools_handler.cache.read\<close>, which answers \<open>PyNone\<close> when nothing is cached);
    \<open>last_used_tool\<close> is \<open>None\<close> while the attribute holds no call.
  \<^item> \<open>i18n_errors\<close> looks a message template up, \<open>str_format\<close> is \<open>str.format\<close> with the
    keywords \<open>tool\<close> and \<open>tool_input\<close>, \<open>py_str\<close> and \<open>dict_str\<close> are Python's \<open>str\<close> on
    a value and on the filtered argument schema.
\<close>

record 'h collaborators =
  chain_invoke :: "nat \<Rightarrow> string \<Rightarrow> string \<Rightarrow> exn + ToolCalling"
  last_used_tool :: "'h \<Rightarrow> ToolCalling option"
  on_tool_start :: "ToolCalling \<Rightarrow> 'h \<Rightarrow> 'h"
  on_tool_end :: "ToolCalling \<Rightarrow> pyval \<Rightarrow> 'h \<Rightarrow> 'h"
  cache_read :: "'h \<Rightarrow> string \<Rightarrow> (string \<rightharpoonup> pyval) \<Rightarrow> pyval"
  i18n_errors :: "string \<Rightarrow> string"
  str_format :: "string \<Rightarrow> string \<Rightarrow> (string \<rightharpoonup> pyval) \<Rightarrow> string"
  py_str :: "pyval \<Rightarrow> string"
  dict_str :: "(string \<times> (string \<times> pyval) list) list \<Rightarrow> string"

text \<open>
  The fields of a \<open>ToolUsage\<close> instance, the state of the handler it refers to, the
  number of times the chain has been invoked and the trace of collaborator calls.
\<close>

record 'h ToolUsage =
  run_attempts :: int
  max_parsing_attempts :: int
  tools_handler :: 'h
  tools :: "BaseTool list"
  chain_calls :: nat
  trace :: "event list"

text \<open>\<open>ToolUsage.__init__\<close>: the attempt counter starts at 1, the threshold is 3.\<close>

definition init :: "'h \<Rightarrow> BaseTool list \<Rightarrow> 'h ToolUsage" where
  "init handler tls =
     \<lparr>run_attempts = 1, max_parsing_attempts = 3, tools_handler = handler, tools = tls,
      chain_calls = 0, trace = []\<rparr>"

section \<open>The methods\<close>

text \<open>
  \<open>ToolUsage._select_tool\<close>: the \<open>for\<close> loop over \<open>self.tools\<close> returns the first tool
  whose name equals \<open>tool_name\<close>; when the loop ends without one, the exception
  \<open>Tool '<tool_name>' not found.\<close> is raised.
\<close>

definition tool_not_found :: "string \<Rightarrow> exn" where
  "tool_not_found tool_name = Exception (''Tool '' @ [CHR 0x27] @ tool_name @ [CHR 0x27] @ '' not found.'')"

fun select_tool :: "BaseTool list \<Rightarrow> string \<Rightarrow> exn + BaseTool" where
  "select_tool [] tool_name = Inl (tool_not_found tool_name)"
| "select_tool (tool # rest) tool_name =
     (if name tool = tool_name then Inr tool else select_tool rest tool_name)"

text \<open>
  \<open>ToolUsage._check_tool_repeated_usage\<close>: when the handler holds a last used call the
  result is the comparison with it; otherwise the method falls off its end and returns
  Python's \<open>None\<close>. The method returns the instance as it found it.
\<close>

definition check_tool_repeated_usage ::
  "'h collaborators \<Rightarrow> ToolCalling \<Rightarrow> 'h ToolUsage \<Rightarrow> bool option \<times> 'h ToolUsage" where
  "check_tool_repeated_usage env calling self =
     (case last_used_tool env (tools_handler self) of
        Some last_tool_usage \<Rightarrow> (Some (calling = last_tool_usage), self)
      | None \<Rightarrow> (None, self))"

text \<open>The truth value Python gives the result of the check: \<open>None\<close> and \<open>False\<close> are false.\<close>

fun truthy_check :: "bool option \<Rightarrow> bool" where
  "truthy_check None = False"
| "truthy_check (Some b) = b"

text \<open>\<open>sep.join(xs)\<close>.\<close>

fun py_join :: "string \<Rightarrow> string list \<Rightarrow> string" where
  "py_join sep [] = []"
| "py_join sep [x] = x"
| "py_join sep (x # y # ys) = x @ sep @ py_join sep (y # ys)"

text \<open>
  \<open>ToolUsage._render\<close>: for each tool, its name, its argument schema restricted to the
  keys \<open>description\<close> and \<open>type\<close>, and its description, on three lines; the tools are
  separated by a line \<open>--\<close>.
\<close>

definition render :: "'h collaborators \<Rightarrow> 'h ToolUsage \<Rightarrow> string" where
  "render env self =
     py_join ([CHR 0x0A] @ ''--'' @ [CHR 0x0A])
       (map (\<lambda>tool.
          py_join [CHR 0x0A]
            [''Funtion Name: '' @ name tool,
             ''Funtion attributes: '' @
                dict_str env
                  (map (\<lambda>(k, v). (k, filter (\<lambda>(k2, v2). k2 \<in> set [''description'', ''type'']) v))
                     (args tool)),
             ''Description: '' @ description tool])
        (tools self))"

text \<open>
  \<open>ToolUsage._tool_calling\<close>: the chain is invoked on the rendered tools and the text.
  When it raises, the attempt counter is incremented; if the counter then exceeds the
  threshold, the error is reported to telemetry and the exception just caught is raised
  again, otherwise the method calls itself with the same text.
\<close>

function tool_calling ::
  "'h collaborators \<Rightarrow> string \<Rightarrow> 'h ToolUsage \<Rightarrow> (exn + ToolCalling) \<times> 'h ToolUsage" where
  "tool_calling env tool_string self =
     (let invoked = self\<lparr>chain_calls := chain_calls self + 1\<rparr> in
      case chain_invoke env (chain_calls self) (render env self) tool_string of
        Inr calling \<Rightarrow> (Inr calling, invoked)
      | Inl e \<Rightarrow>
          (let self1 = invoked\<lparr>run_attempts := run_attempts invoked + 1\<rparr> in
           if run_attempts self1 > max_parsing_attempts self1
           then (Inl e, self1\<lparr>trace := trace self1 @ [TelemetryToolUsageError]\<rparr>)
           else tool_calling env tool_string self1))"
  by pat_completeness auto
termination
  by (relation "measure (\<lambda>(env, tool_string, self).
        nat (max_parsing_attempts self + 1 - run_attempts self))") auto

text \<open>
  \<open>ToolUsage._use\<close>: a repeated call is answered with the message
  \<open>task_repeated_usage\<close>. Otherwise the handler is told that the tool starts and the cache
  is read; when the value read is false in Python's sense the tool is run and, unless it
  raises, the handler is told the output. The result is printed and reported to telemetry
  with the tool's name and the attempt counter (\<open>report\<close>, the last three statements).
\<close>

definition repeated_usage_message :: "'h collaborators \<Rightarrow> ToolCalling \<Rightarrow> pyval" where
  "repeated_usage_message env calling =
     PyStr (str_format env (i18n_errors env ''task_repeated_usage'')
              (function_name calling) (arguments calling))"

definition printed :: "'h collaborators \<Rightarrow> pyval \<Rightarrow> string" where
  "printed env result = [CHR 0x0A, CHR 0x0A] @ py_str env result @ [CHR 0x0A]"

definition report ::
  "'h collaborators \<Rightarrow> BaseTool \<Rightarrow> pyval \<Rightarrow> 'h ToolUsage \<Rightarrow> (exn + pyval) \<times> 'h ToolUsage" where
  "report env tool result self =
     (Inr result,
      self\<lparr>trace := trace self @
         [PrinterPrint (printed env result) ''yellow'',
          TelemetryToolUsage (name tool) (run_attempts self)]\<rparr>)"

definition use_internal ::
  "'h collaborators \<Rightarrow> BaseTool \<Rightarrow> ToolCalling \<Rightarrow> 'h ToolUsage \<Rightarrow> (exn + pyval) \<times> 'h ToolUsage" where
  "use_internal env tool calling self =
     (let (repeated, self0) = check_tool_repeated_usage env calling self in
      if truthy_check repeated
      then report env tool (repeated_usage_message env calling) self0
      else
        let self1 = self0\<lparr>tools_handler := on_tool_start env calling (tools_handler self0),
                          trace := trace self0 @ [OnToolStart calling]\<rparr>;
            result = cache_read env (tools_handler self1) (function_name calling) (arguments calling);
            self2 = self1\<lparr>trace := trace self1 @ [CacheRead (function_name calling) (arguments calling)]\<rparr>
        in
        if \<not> truthy result
        then
          (case run tool (arguments calling) of
             Inl e \<Rightarrow>
               (Inl e, self2\<lparr>trace := trace self2 @ [ToolRun (name tool) (arguments calling)]\<rparr>)
           | Inr output \<Rightarrow>
               report env tool output
                 (self2\<lparr>tools_handler := on_tool_end env calling output (tools_handler self2),
                        trace := trace self2 @
                          [ToolRun (name tool) (arguments calling), OnToolEnd calling output]\<rparr>))
        else report env tool result self2)"

text \<open>
  \<open>ToolUsage.use\<close>: extract the call, select the tool, use it; an exception of either of
  the first two steps ends the invocation.
\<close>

definition use :: "'h collaborators \<Rightarrow> string \<Rightarrow> 'h ToolUsage \<Rightarrow> (exn + pyval) \<times> 'h ToolUsage" where
  "use env tool_string self =
     (case tool_calling env tool_string self of
        (Inl e, self1) \<Rightarrow> (Inl e, self1)
      | (Inr calling, self1) \<Rightarrow>
          (case select_tool (tools self1) (function_name calling) of
             Inl e \<Rightarrow> (Inl e, self1)
           | Inr tool \<Rightarrow> use_internal env tool calling self1))"

section \<open>Consecutive invocations and delegate failures\<close>

text \<open>
  A caller that invokes \<open>use\<close> on one instruction after the other, on the same instance,
  and collects what each invocation returned or raised.
\<close>

fun use_all ::
  "'h collaborators \<Rightarrow> string list \<Rightarrow> 'h ToolUsage \<Rightarrow> (exn + pyval) list \<times> 'h ToolUsage" where
  "use_all env [] self = ([], self)"
| "use_all env (tool_string # rest) self =
     (let (r, self1) = use env tool_string self;
          (rs, self2) = use_all env rest self1
      in (r # rs, self2))"

text \<open>The number of chain invocations that raised between two states of an instance.\<close>

definition delegate_failures ::
  "'h collaborators \<Rightarrow> string \<Rightarrow> 'h ToolUsage \<Rightarrow> 'h ToolUsage \<Rightarrow> nat" where
  "delegate_failures env tool_string self self' =
     length (filter (\<lambda>k. isl (chain_invoke env k (render env self) tool_string))
               [chain_calls self ..< chain_calls self'])"

section \<open>A concrete setting\<close>

text \<open>
  A handler that remembers the call it was last told to start, with a cache that always
  answers \<open>cached\<close>; a chain whose \<open>k\<close>-th answer is \<open>answers k\<close>; tools, one of which
  always raises; calls and chains for them.
\<close>

definition example_env ::
  "(nat \<Rightarrow> exn + ToolCalling) \<Rightarrow> pyval \<Rightarrow> (ToolCalling option) collaborators" where
  "example_env answers cached =
     \<lparr>chain_invoke = (\<lambda>k available_tools tool_string. answers k),
      last_used_tool = (\<lambda>h. h),
      on_tool_start = (\<lambda>calling h. Some calling),
      on_tool_end = (\<lambda>calling output h. h),
      cache_read = (\<lambda>h tool input. cached),
      i18n_errors = (\<lambda>key. key),
      str_format = (\<lambda>template tool tool_input. template @ '' '' @ tool),
      py_str = (\<lambda>v. case v of PyStr s \<Rightarrow> s | _ \<Rightarrow> []),
      dict_str = (\<lambda>d. concat (map fst d))\<rparr>"

definition search_tool :: BaseTool where
  "search_tool =
     \<lparr>name = ''search'', description = ''Search the web'',
      args = [(''q'', [(''title'', PyStr ''Q''), (''type'', PyStr ''string'')])],
      run = (\<lambda>kw. if kw ''q'' = Some (PyStr ''x'') then Inr (PyStr ''42'')
                   else Inl (Exception ''unknown query''))\<rparr>"

definition second_search_tool :: BaseTool where
  "second_search_tool = search_tool\<lparr>description := ''Another search''\<rparr>"

definition broken_tool :: BaseTool where
  "broken_tool =
     \<lparr>name = ''broken'', description = ''Always raises'', args = [],
      run = (\<lambda>kw. Inl (Exception ''boom''))\<rparr>"

definition calc_tool :: BaseTool where
  "calc_tool =
     \<lparr>name = ''calc'', description = ''Add two and two'', args = [],
      run = (\<lambda>kw. Inr (PyInt 4))\<rparr>"

definition search_call :: ToolCalling where
  "search_call = \<lparr>function_name = ''search'', arguments = [''q'' \<mapsto> PyStr ''x'']\<rparr>"

definition other_search_call :: ToolCalling where
  "other_search_call = \<lparr>function_name = ''search'', arguments = [''q'' \<mapsto> PyStr ''y'']\<rparr>"

definition broken_call :: ToolCalling where
  "broken_call = \<lparr>function_name = ''broken'', arguments = Map.empty\<rparr>"

definition calc_call :: ToolCalling where
  "calc_call = \<lparr>function_name = ''calc'', arguments = Map.empty\<rparr>"

definition always_failing :: "nat \<Rightarrow> exn + ToolCalling" where
  "always_failing k =
     Inl (Exception (if k = 0 then ''first'' else if k = 1 then ''second'' else ''later''))"

definition failing_twice :: "nat \<Rightarrow> exn + ToolCalling" where
  "failing_twice k = (if k < 2 then Inl (Exception ''malformed output'') else Inr search_call)"

definition failing_once :: "nat \<Rightarrow> exn + ToolCalling" where
  "failing_once k =
     (if k = 0 then Inl (Exception ''malformed output'')
      else if k = 1 then Inr search_call else Inr calc_call)"

definition answering_second_only :: "nat \<Rightarrow> exn + ToolCalling" where
  "answering_second_only k =
     (if k = 1 then Inr search_call else Inl (Exception ''malformed output''))"

definition answering_second_and_fifth :: "nat \<Rightarrow> exn + ToolCalling" where
  "answering_second_and_fifth k =
     (if k = 1 then Inr search_call else if k = 4 then Inr calc_call
      else Inl (Exception ''malformed output''))"

declare tool_calling.simps [simp del]

section \<open>Evaluation and frame lemmas\<close>

lemma render_upd [simp]:
  "render env (self\<lparr>chain_calls := c\<rparr>) = render env self"
  "render env (self\<lparr>run_attempts := a\<rparr>) = render env self"
  "render env (self\<lparr>trace := t\<rparr>) = render env self"
  "render env (self\<lparr>tools_handler := h\<rparr>) = render env self"
  by (simp_all add: render_def)

lemma tool_calling_success:
  assumes "chain_invoke env (chain_calls self) (render env self) tool_string = Inr calling"
  shows "tool_calling env tool_string self = (Inr calling, self\<lparr>chain_calls := chain_calls self + 1\<rparr>)"
  using assms by (simp add: tool_calling.simps [of env tool_string self])

lemma tool_calling_exceeded:
  assumes "chain_invoke env (chain_calls self) (render env self) tool_string = Inl e"
    and "max_parsing_attempts self < run_attempts self + 1"
  shows "tool_calling env tool_string self =
           (Inl e, self\<lparr>chain_calls := chain_calls self + 1,
                         run_attempts := run_attempts self + 1,
                         trace := trace self @ [TelemetryToolUsageError]\<rparr>)"
  using assms by (simp add: tool_calling.simps [of env tool_string self])

lemma tool_calling_retry:
  assumes "chain_invoke env (chain_calls self) (render env self) tool_string = Inl e"
    and "\<not> max_parsing_attempts self < run_attempts self + 1"
  shows "tool_calling env tool_string self =
           tool_calling env tool_string
             (self\<lparr>chain_calls := chain_calls self + 1, run_attempts := run_attempts self + 1\<rparr>)"
  using assms by (simp add: tool_calling.simps [of env tool_string self])

lemmas tool_calling_eval = tool_calling_success tool_calling_exceeded tool_calling_retry

lemma tool_calling_retry_induct:
  assumes "\<And>env tool_string self.
     (\<And>e. chain_invoke env (chain_calls self) (render env self) tool_string = Inl e \<Longrightarrow>
          \<not> max_parsing_attempts self < run_attempts self + 1 \<Longrightarrow>
          P env tool_string
            (self\<lparr>chain_calls := chain_calls self + 1, run_attempts := run_attempts self + 1\<rparr>))
     \<Longrightarrow> P env tool_string self"
  shows "P env tool_string self"
proof (induction env tool_string self rule: tool_calling.induct)
  case (1 env tool_string self)
  show ?case
  proof (rule assms)
    fix e
    assume "chain_invoke env (chain_calls self) (render env self) tool_string = Inl e"
      and "\<not> max_parsing_attempts self < run_attempts self + 1"
    with "1.IH" [OF refl _ refl, of e]
    show "P env tool_string
            (self\<lparr>chain_calls := chain_calls self + 1, run_attempts := run_attempts self + 1\<rparr>)"
      by simp
  qed
qed

lemma tool_calling_frame:
  "tool_calling env tool_string self = (r, s') \<Longrightarrow>
     tools_handler s' = tools_handler self \<and> tools s' = tools self \<and>
     max_parsing_attempts s' = max_parsing_attempts self \<and> chain_calls self < chain_calls s'"
proof (induction env tool_string self rule: tool_calling_retry_induct)
  case (1 env tool_string self)
  show ?case
  proof (cases "chain_invoke env (chain_calls self) (render env self) tool_string")
    case (Inr calling)
    with "1.prems" show ?thesis by (auto simp: tool_calling_success)
  next
    case (Inl e)
    show ?thesis
    proof (cases "max_parsing_attempts self < run_attempts self + 1")
      case True
      with Inl "1.prems" show ?thesis by (auto simp: tool_calling_exceeded)
    next
      case False
      with Inl "1.prems" "1.IH" [OF Inl False] show ?thesis
        by (simp add: tool_calling_retry)
    qed
  qed
qed

lemma tool_calling_earlier_failed:
  "tool_calling env tool_string self = (r, s') \<Longrightarrow>
     chain_calls self \<le> k \<Longrightarrow> Suc k < chain_calls s' \<Longrightarrow>
     isl (chain_invoke env k (render env self) tool_string)"
proof (induction env tool_string self rule: tool_calling_retry_induct)
  case (1 env tool_string self)
  show ?case
  proof (cases "chain_invoke env (chain_calls self) (render env self) tool_string")
    case (Inr calling)
    with "1.prems" show ?thesis by (auto simp: tool_calling_success)
  next
    case (Inl e)
    show ?thesis
    proof (cases "max_parsing_attempts self < run_attempts self + 1")
      case True
      with Inl "1.prems" show ?thesis by (auto simp: tool_calling_exceeded)
    next
      case False
      show ?thesis
      proof (cases "k = chain_calls self")
        case True
        with Inl show ?thesis by simp
      next
        case k: False
        with Inl False "1.prems" "1.IH" [OF Inl False] show ?thesis
          by (simp add: tool_calling_retry)
      qed
    qed
  qed
qed

lemma tool_calling_returned:
  "tool_calling env tool_string self = (Inr calling, s') \<Longrightarrow>
     chain_invoke env (chain_calls s' - 1) (render env self) tool_string = Inr calling \<and>
     trace s' = trace self \<and>
     run_attempts s' = run_attempts self + int (chain_calls s' - chain_calls self) - 1"
proof (induction env tool_string self rule: tool_calling_retry_induct)
  case (1 env tool_string self)
  show ?case
  proof (cases "chain_invoke env (chain_calls self) (render env self) tool_string")
    case (Inr c)
    with "1.prems" show ?thesis by (auto simp: tool_calling_success)
  next
    case (Inl e)
    show ?thesis
    proof (cases "max_parsing_attempts self < run_attempts self + 1")
      case True
      with Inl "1.prems" show ?thesis by (auto simp: tool_calling_exceeded)
    next
      case False
      from Inl False "1.prems" have run: "tool_calling env tool_string
          (self\<lparr>chain_calls := chain_calls self + 1, run_attempts := run_attempts self + 1\<rparr>)
           = (Inr calling, s')"
        by (simp add: tool_calling_retry)
      from tool_calling_frame [OF run] have "chain_calls self + 1 < chain_calls s'" by simp
      with "1.IH" [OF Inl False run] show ?thesis by auto
    qed
  qed
qed

lemma tool_calling_raised:
  "tool_calling env tool_string self = (Inl e, s') \<Longrightarrow>
     chain_invoke env (chain_calls s' - 1) (render env self) tool_string = Inl e \<and>
     trace s' = trace self @ [TelemetryToolUsageError] \<and>
     run_attempts s' = run_attempts self + int (chain_calls s' - chain_calls self) \<and>
     max_parsing_attempts s' < run_attempts s'"
proof (induction env tool_string self rule: tool_calling_retry_induct)
  case (1 env tool_string self)
  show ?case
  proof (cases "chain_invoke env (chain_calls self) (render env self) tool_string")
    case (Inr c)
    with "1.prems" show ?thesis by (auto simp: tool_calling_success)
  next
    case (Inl e')
    show ?thesis
    proof (cases "max_parsing_attempts self < run_attempts self + 1")
      case True
      with Inl "1.prems" show ?thesis by (auto simp: tool_calling_exceeded)
    next
      case False
      from Inl False "1.prems" have run: "tool_calling env tool_string
          (self\<lparr>chain_calls := chain_calls self + 1, run_attempts := run_attempts self + 1\<rparr>)
           = (Inl e, s')"
        by (simp add: tool_calling_retry)
      from tool_calling_frame [OF run] have "chain_calls self + 1 < chain_calls s'" by simp
      with "1.IH" [OF Inl False run] show ?thesis by auto
    qed
  qed
qed

lemma tool_calling_all_fail:
  "\<forall>k. chain_calls self \<le> k \<longrightarrow> isl (chain_invoke env k (render env self) tool_string) \<Longrightarrow>
     \<exists>e s'. tool_calling env tool_string self = (Inl e, s') \<and>
            chain_calls s' =
              chain_calls self + nat (max_parsing_attempts self - run_attempts self) + 1"
proof (induction env tool_string self rule: tool_calling_retry_induct)
  case (1 env tool_string self)
  from "1.prems" obtain e
    where e: "chain_invoke env (chain_calls self) (render env self) tool_string = Inl e"
    by (auto simp: isl_def)
  show ?case
  proof (cases "max_parsing_attempts self < run_attempts self + 1")
    case True
    with e show ?thesis by (simp add: tool_calling_exceeded)
  next
    case False
    let ?s1 = "self\<lparr>chain_calls := chain_calls self + 1, run_attempts := run_attempts self + 1\<rparr>"
    from "1.prems"
    have "\<forall>k. chain_calls ?s1 \<le> k \<longrightarrow> isl (chain_invoke env k (render env ?s1) tool_string)"
      by simp
    from "1.IH" [OF e False this] obtain e' s'
      where run: "tool_calling env tool_string ?s1 = (Inl e', s')"
        and calls: "chain_calls s' =
              chain_calls ?s1 + nat (max_parsing_attempts ?s1 - run_attempts ?s1) + 1"
      by blast
    from e False run have "tool_calling env tool_string self = (Inl e', s')"
      by (simp add: tool_calling_retry)
    moreover from calls False
    have "chain_calls s' =
            chain_calls self + nat (max_parsing_attempts self - run_attempts self) + 1"
      by simp
    ultimately show ?thesis by blast
  qed
qed

lemma select_tool_absent:
  "tool_name \<notin> name ` set tls \<Longrightarrow> select_tool tls tool_name = Inl (tool_not_found tool_name)"
  by (induction tls) auto

lemma select_tool_first:
  "tool_name \<notin> name ` set before \<Longrightarrow> name tool = tool_name \<Longrightarrow>
     select_tool (before @ tool # rest) tool_name = Inr tool"
  by (induction before) auto

lemma select_tool_filter:
  "select_tool tls tool_name =
     (case filter (\<lambda>t. name t = tool_name) tls of
        [] \<Rightarrow> Inl (tool_not_found tool_name) | tool # rest \<Rightarrow> Inr tool)"
  by (induction tls) auto

lemma repeated_iff:
  "truthy_check (fst (check_tool_repeated_usage env calling self)) \<longleftrightarrow>
     last_used_tool env (tools_handler self) = Some calling"
  by (auto simp: check_tool_repeated_usage_def split: option.splits)

lemma check_snd [simp]: "snd (check_tool_repeated_usage env calling self) = self"
  by (simp add: check_tool_repeated_usage_def split: option.splits)

lemma use_internal_unfold:
  "use_internal env tool calling self =
     (if last_used_tool env (tools_handler self) = Some calling
      then report env tool (repeated_usage_message env calling) self
      else
        let h1 = on_tool_start env calling (tools_handler self);
            result = cache_read env h1 (function_name calling) (arguments calling);
            self2 = self\<lparr>tools_handler := h1,
                         trace := trace self @
                           [OnToolStart calling, CacheRead (function_name calling) (arguments calling)]\<rparr>
        in
        if truthy result then report env tool result self2
        else
          (case run tool (arguments calling) of
             Inl e \<Rightarrow>
               (Inl e, self2\<lparr>trace := trace self2 @ [ToolRun (name tool) (arguments calling)]\<rparr>)
           | Inr output \<Rightarrow>
               report env tool output
                 (self2\<lparr>tools_handler := on_tool_end env calling output h1,
                        trace := trace self2 @
                          [ToolRun (name tool) (arguments calling), OnToolEnd calling output]\<rparr>)))"
  by (cases "check_tool_repeated_usage env calling self")
     (use repeated_iff [of env calling self] check_snd [of env calling self] in
       \<open>auto simp: use_internal_def Let_def split: sum.splits\<close>)

lemma use_internal_raises:
  assumes "last_used_tool env (tools_handler self) \<noteq> Some calling"
    and "\<not> truthy (cache_read env (on_tool_start env calling (tools_handler self))
           (function_name calling) (arguments calling))"
    and "run tool (arguments calling) = Inl e"
  shows "use_internal env tool calling self =
           (Inl e,
            self\<lparr>tools_handler := on_tool_start env calling (tools_handler self),
                 trace := trace self @
                   [OnToolStart calling,
                    CacheRead (function_name calling) (arguments calling),
                    ToolRun (name tool) (arguments calling)]\<rparr>)"
  using assms by (simp add: use_internal_unfold report_def Let_def)

lemma use_internal_frame:
  assumes "use_internal env tool calling self = (r, s')"
  shows "run_attempts s' = run_attempts self \<and> chain_calls s' = chain_calls self \<and>
         tools s' = tools self \<and> max_parsing_attempts s' = max_parsing_attempts self"
  using assms
  by (auto simp: use_internal_unfold report_def Let_def split: if_splits sum.splits)

lemma use_internal_reports:
  assumes "use_internal env tool calling self = (Inr result, s')"
  shows "last (trace s') = TelemetryToolUsage (name tool) (run_attempts self)"
  using assms
  by (auto simp: use_internal_unfold report_def Let_def split: if_splits sum.splits)

lemma use_cases:
  assumes "use env tool_string self = (r, s')"
  obtains (extraction) e where "tool_calling env tool_string self = (Inl e, s')" "r = Inl e"
  | (selection) calling e where "tool_calling env tool_string self = (Inr calling, s')"
      "select_tool (tools s') (function_name calling) = Inl e" "r = Inl e"
  | (used) calling self1 tool where "tool_calling env tool_string self = (Inr calling, self1)"
      "select_tool (tools self1) (function_name calling) = Inr tool"
      "use_internal env tool calling self1 = (r, s')"
  using assms by (auto simp: use_def split: prod.splits sum.splits)

lemma use_repeated:
  assumes "last_used_tool env (tools_handler self) = Some calling"
    and "select_tool (tools self) (function_name calling) = Inr tool"
    and "chain_invoke env (chain_calls self) (render env self) tool_string = Inr calling"
  shows "use env tool_string self =
           (Inr (repeated_usage_message env calling),
            self\<lparr>chain_calls := chain_calls self + 1,
                 trace := trace self @
                   [PrinterPrint (printed env (repeated_usage_message env calling)) ''yellow'',
                    TelemetryToolUsage (name tool) (run_attempts self)]\<rparr>)"
  using assms by (simp add: use_def tool_calling_success use_internal_unfold report_def)

lemma count_all_but_last:
  assumes "a < b" and "\<And>k. a \<le> k \<Longrightarrow> Suc k < b \<Longrightarrow> P k" and "\<not> P (b - 1)"
  shows "length (filter P [a..<b]) = b - a - 1"
proof -
  from assms(1) obtain b' where b: "b = Suc b'" and "a \<le> b'"
    by (cases b) auto
  then have "[a..<b] = [a..<b'] @ [b']" by simp
  moreover from assms(2) b have "filter P [a..<b'] = [a..<b']"
    by (intro filter_True) simp
  ultimately show ?thesis using assms(3) b by simp
qed

lemma count_all:
  assumes "\<And>k. a \<le> k \<Longrightarrow> k < b \<Longrightarrow> P k"
  shows "length (filter P [a..<b]) = b - a"
proof -
  from assms have "filter P [a..<b] = [a..<b]"
    by (intro filter_True) simp
  then show ?thesis by simp
qed

lemma delegate_failures_cong:
  "chain_calls s1 = chain_calls s2 \<Longrightarrow>
     delegate_failures env tool_string self s1 = delegate_failures env tool_string self s2"
  by (simp add: delegate_failures_def)

lemma tool_calling_attempts:
  assumes "tool_calling env tool_string self = (r, s')"
  shows "run_attempts s' = run_attempts self + int (delegate_failures env tool_string self s')"
proof (cases r)
  case (Inr calling)
  let ?P = "\<lambda>k. isl (chain_invoke env k (render env self) tool_string)"
  from assms Inr have run: "tool_calling env tool_string self = (Inr calling, s')" by simp
  from tool_calling_frame [OF run] have lt: "chain_calls self < chain_calls s'" by simp
  from tool_calling_returned [OF run] have last: "\<not> ?P (chain_calls s' - 1)"
    and ra: "run_attempts s' = run_attempts self + int (chain_calls s' - chain_calls self) - 1"
    by simp_all
  have "length (filter ?P [chain_calls self..<chain_calls s']) = chain_calls s' - chain_calls self - 1"
    using lt tool_calling_earlier_failed [OF run] last by (rule count_all_but_last)
  with ra lt show ?thesis by (simp add: delegate_failures_def)
next
  case (Inl e)
  let ?P = "\<lambda>k. isl (chain_invoke env k (render env self) tool_string)"
  from assms Inl have run: "tool_calling env tool_string self = (Inl e, s')" by simp
  from tool_calling_frame [OF run] have lt: "chain_calls self < chain_calls s'" by simp
  from tool_calling_raised [OF run] have last: "?P (chain_calls s' - 1)"
    and ra: "run_attempts s' = run_attempts self + int (chain_calls s' - chain_calls self)"
    by simp_all
  have "?P k" if "chain_calls self \<le> k" "k < chain_calls s'" for k
  proof (cases "Suc k < chain_calls s'")
    case True
    with that show ?thesis using tool_calling_earlier_failed [OF run] by simp
  next
    case False
    with that have "k = chain_calls s' - 1" by simp
    with last show ?thesis by simp
  qed
  then have "length (filter ?P [chain_calls self..<chain_calls s']) = chain_calls s' - chain_calls self"
    by (rule count_all)
  with ra show ?thesis by (simp add: delegate_failures_def)
qed

lemmas use_eval = use_def use_internal_unfold report_def repeated_usage_message_def printed_def

lemmas example_defs =
  example_env_def init_def search_tool_def second_search_tool_def broken_tool_def calc_tool_def
  search_call_def other_search_call_def broken_call_def calc_call_def
  always_failing_def failing_twice_def failing_once_def
  answering_second_only_def answering_second_and_fifth_def

section \<open>Tool selection\<close>

text \<open>
  Claim C6. Tool selection scans the list for a name equal to the requested one, character
  for character: a name that no tool of a non-empty list has raises the exception
  \<open>Tool '<name>' not found.\<close>, which carries the requested name; a name that exactly one
  tool has returns that tool; and in general the first tool of the list with that name is
  returned, whatever follows it.
\<close>

theorem select_tool_exact:
  "(tls \<noteq> [] \<and> tool_name \<notin> name ` set tls \<longrightarrow>
      select_tool tls tool_name =
        Inl (Exception (''Tool '' @ [CHR 0x27] @ tool_name @ [CHR 0x27] @ '' not found.''))) \<and>
   (filter (\<lambda>t. name t = tool_name) tls = [tool] \<longrightarrow> select_tool tls tool_name = Inr tool) \<and>
   (tls = before @ tool # rest \<and> name tool = tool_name \<and> tool_name \<notin> name ` set before \<longrightarrow>
      select_tool tls tool_name = Inr tool)"
proof (intro conjI impI)
  assume "tls \<noteq> [] \<and> tool_name \<notin> name ` set tls"
  then show "select_tool tls tool_name =
        Inl (Exception (''Tool '' @ [CHR 0x27] @ tool_name @ [CHR 0x27] @ '' not found.''))"
    using select_tool_absent [of tool_name tls] by (simp add: tool_not_found_def)
next
  assume "filter (\<lambda>t. name t = tool_name) tls = [tool]"
  then show "select_tool tls tool_name = Inr tool"
    by (simp add: select_tool_filter)
next
  assume "tls = before @ tool # rest \<and> name tool = tool_name \<and> tool_name \<notin> name ` set before"
  then show "select_tool tls tool_name = Inr tool"
    by (simp add: select_tool_first)
qed

theorem select_tool_exact_witness:
  "[search_tool, broken_tool, second_search_tool] \<noteq> [] \<and>
   ''Search'' \<notin> name ` set [search_tool, broken_tool, second_search_tool] \<and>
   select_tool [search_tool, broken_tool, second_search_tool] ''Search'' =
     Inl (Exception (''Tool '' @ [CHR 0x27] @ ''Search'' @ [CHR 0x27] @ '' not found.'')) \<and>
   filter (\<lambda>t. name t = ''broken'') [search_tool, broken_tool, second_search_tool] = [broken_tool] \<and>
   select_tool [search_tool, broken_tool, second_search_tool] ''broken'' = Inr broken_tool \<and>
   name search_tool = ''search'' \<and> name second_search_tool = ''search'' \<and>
   search_tool \<noteq> second_search_tool \<and>
   select_tool [search_tool, broken_tool, second_search_tool] ''search'' = Inr search_tool"
  using select_tool_exact [of "[search_tool, broken_tool, second_search_tool]" "''Search''"]
    select_tool_exact [of "[search_tool, broken_tool, second_search_tool]" "''broken''" broken_tool]
    select_tool_exact [of "[search_tool, broken_tool, second_search_tool]" "''search''"
       search_tool "[]" "[broken_tool, second_search_tool]"]
  by (simp add: search_tool_def broken_tool_def second_search_tool_def)

section \<open>The usage guard\<close>

text \<open>
  Claim C8. The check for repeated usage answers \<open>True\<close> exactly when the handler holds a
  last used call and that call equals the given one (its only other answers, \<open>False\<close> and
  \<open>None\<close>, are false in a condition), and it returns the instance, hence the handler, as
  it found them.
\<close>

theorem check_tool_repeated_usage_iff:
  "(fst (check_tool_repeated_usage env calling self) = Some True \<longleftrightarrow>
      (\<exists>last_tool_usage. last_used_tool env (tools_handler self) = Some last_tool_usage \<and>
                          calling = last_tool_usage)) \<and>
   (truthy_check (fst (check_tool_repeated_usage env calling self)) \<longleftrightarrow>
      fst (check_tool_repeated_usage env calling self) = Some True) \<and>
   snd (check_tool_repeated_usage env calling self) = self"
  by (auto simp: check_tool_repeated_usage_def split: option.splits)

theorem check_tool_repeated_usage_iff_witness:
  "check_tool_repeated_usage (example_env failing_twice PyNone) search_call
     (init (Some search_call) [search_tool]) = (Some True, init (Some search_call) [search_tool]) \<and>
   check_tool_repeated_usage (example_env failing_twice PyNone) search_call
     (init (Some other_search_call) [search_tool]) =
     (Some False, init (Some other_search_call) [search_tool]) \<and>
   check_tool_repeated_usage (example_env failing_twice PyNone) search_call
     (init None [search_tool]) = (None, init None [search_tool])"
  using check_tool_repeated_usage_iff [of "example_env failing_twice PyNone" search_call
          "init (Some search_call) [search_tool]"]
    check_tool_repeated_usage_iff [of "example_env failing_twice PyNone" search_call
          "init (Some other_search_call) [search_tool]"]
    check_tool_repeated_usage_iff [of "example_env failing_twice PyNone" search_call
          "init None [search_tool]"]
  by (simp add: example_defs check_tool_repeated_usage_def fun_eq_iff)

section \<open>Using a tool\<close>

text \<open>
  Claim C1. When the call equals the last used call of the handler, \<open>_use\<close> returns the
  message \<open>task_repeated_usage\<close> formatted with the call's tool name and arguments. The
  only collaborator calls are the print and the usage telemetry: the tool is not run, and
  the handler (with its cache) is the one before the call.
\<close>

theorem repeated_usage_not_executed:
  assumes "last_used_tool env (tools_handler self) = Some calling"
  shows "use_internal env tool calling self =
           (Inr (PyStr (str_format env (i18n_errors env ''task_repeated_usage'')
                          (function_name calling) (arguments calling))),
            self\<lparr>trace := trace self @
               [PrinterPrint (printed env (repeated_usage_message env calling)) ''yellow'',
                TelemetryToolUsage (name tool) (run_attempts self)]\<rparr>) \<and>
         tools_handler (snd (use_internal env tool calling self)) = tools_handler self"
  using assms by (simp add: use_internal_unfold report_def repeated_usage_message_def)

theorem repeated_usage_not_executed_witness:
  "last_used_tool (example_env failing_twice PyNone)
     (tools_handler (init (Some search_call) [search_tool])) = Some search_call \<and>
   use_internal (example_env failing_twice PyNone) search_tool search_call
     (init (Some search_call) [search_tool]) =
     (Inr (PyStr ''task_repeated_usage search''),
      (init (Some search_call) [search_tool])
        \<lparr>trace := [PrinterPrint ([CHR 0x0A, CHR 0x0A] @ ''task_repeated_usage search'' @ [CHR 0x0A])
                      ''yellow'',
                   TelemetryToolUsage ''search'' 1]\<rparr>)"
  using repeated_usage_not_executed [of "example_env failing_twice PyNone"
          "init (Some search_call) [search_tool]" search_call search_tool]
  by (simp add: example_defs printed_def repeated_usage_message_def)

text \<open>
  Claim C2, amended. When the call is not a repeat and the cache read answers a value that
  is true in Python's sense, \<open>_use\<close> returns that value unchanged and the tool is not
  run: after \<open>on_tool_start\<close> and the cache read, only the print and the telemetry follow.
\<close>

theorem cached_truthy_value_returned:
  assumes "last_used_tool env (tools_handler self) \<noteq> Some calling"
    and "cache_read env (on_tool_start env calling (tools_handler self))
           (function_name calling) (arguments calling) = cached"
    and "truthy cached"
  shows "use_internal env tool calling self =
           (Inr cached,
            self\<lparr>tools_handler := on_tool_start env calling (tools_handler self),
                 trace := trace self @
                   [OnToolStart calling,
                    CacheRead (function_name calling) (arguments calling),
                    PrinterPrint (printed env cached) ''yellow'',
                    TelemetryToolUsage (name tool) (run_attempts self)]\<rparr>)"
  using assms by (simp add: use_internal_unfold report_def Let_def)

theorem cached_truthy_value_returned_witness:
  "last_used_tool (example_env failing_twice (PyStr ''cached answer''))
     (tools_handler (init None [search_tool])) \<noteq> Some search_call \<and>
   truthy (PyStr ''cached answer'') \<and>
   use_internal (example_env failing_twice (PyStr ''cached answer'')) search_tool search_call
     (init None [search_tool]) =
     (Inr (PyStr ''cached answer''),
      (init None [search_tool])
        \<lparr>tools_handler := Some search_call,
         trace := [OnToolStart search_call,
                   CacheRead ''search'' (arguments search_call),
                   PrinterPrint ([CHR 0x0A, CHR 0x0A] @ ''cached answer'' @ [CHR 0x0A]) ''yellow'',
                   TelemetryToolUsage ''search'' 1]\<rparr>)"
  using cached_truthy_value_returned [of "example_env failing_twice (PyStr ''cached answer'')"
          "init None [search_tool]" search_call "PyStr ''cached answer''" search_tool]
  by (simp add: example_defs printed_def)

text \<open>
  The claim as first stated, for every value present in the cache, fails for a present value
  that is false in Python's sense: with the empty string cached, the tool is run and its
  output \<open>42\<close> is returned in place of the cached value.
\<close>

theorem cached_empty_value_counterexample:
  "last_used_tool (example_env failing_twice (PyStr []))
     (tools_handler (init None [search_tool])) \<noteq> Some search_call \<and>
   cache_read (example_env failing_twice (PyStr []))
     (on_tool_start (example_env failing_twice (PyStr [])) search_call
        (tools_handler (init None [search_tool])))
     (function_name search_call) (arguments search_call) = PyStr [] \<and>
   PyStr [] \<noteq> PyNone \<and>
   fst (use_internal (example_env failing_twice (PyStr [])) search_tool search_call
          (init None [search_tool])) = Inr (PyStr ''42'') \<and>
   ToolRun ''search'' (arguments search_call) \<in>
     set (trace (snd (use_internal (example_env failing_twice (PyStr [])) search_tool search_call
                        (init None [search_tool]))))"
  by (simp add: example_defs use_internal_unfold report_def Let_def)

text \<open>
  Claim C5. When the call is not a repeat, the cache read answers \<open>None\<close> and the tool's
  action returns an output, \<open>_use\<close> tells the handler \<open>on_tool_start\<close> with the call, runs
  the tool on the call's arguments, tells the handler \<open>on_tool_end\<close> with the call and the
  output, prints, reports the tool's name and the attempt counter to telemetry, and returns
  the output.
\<close>

theorem uncached_call_executed:
  assumes "last_used_tool env (tools_handler self) \<noteq> Some calling"
    and "cache_read env (on_tool_start env calling (tools_handler self))
           (function_name calling) (arguments calling) = PyNone"
    and "run tool (arguments calling) = Inr output"
  shows "use_internal env tool calling self =
           (Inr output,
            self\<lparr>tools_handler :=
                   on_tool_end env calling output (on_tool_start env calling (tools_handler self)),
                 trace := trace self @
                   [OnToolStart calling,
                    CacheRead (function_name calling) (arguments calling),
                    ToolRun (name tool) (arguments calling),
                    OnToolEnd calling output,
                    PrinterPrint (printed env output) ''yellow'',
                    TelemetryToolUsage (name tool) (run_attempts self)]\<rparr>)"
  using assms by (simp add: use_internal_unfold report_def Let_def)

theorem uncached_call_executed_witness:
  "use_internal (example_env failing_twice PyNone) search_tool search_call
     (init None [search_tool]) =
     (Inr (PyStr ''42''),
      (init None [search_tool])
        \<lparr>tools_handler := Some search_call,
         trace := [OnToolStart search_call,
                   CacheRead ''search'' (arguments search_call),
                   ToolRun ''search'' (arguments search_call),
                   OnToolEnd search_call (PyStr ''42''),
                   PrinterPrint ([CHR 0x0A, CHR 0x0A] @ ''42'' @ [CHR 0x0A]) ''yellow'',
                   TelemetryToolUsage ''search'' 1]\<rparr>)"
proof -
  let ?env = "example_env failing_twice PyNone"
  let ?s = "init None [search_tool]"
  have h1: "last_used_tool ?env (tools_handler ?s) \<noteq> Some search_call"
    by (simp add: example_env_def init_def)
  have h2: "cache_read ?env (on_tool_start ?env search_call (tools_handler ?s))
              (function_name search_call) (arguments search_call) = PyNone"
    by (simp add: example_env_def)
  have h3: "run search_tool (arguments search_call) = Inr (PyStr ''42'')"
    by (simp add: search_tool_def search_call_def)
  from uncached_call_executed [OF h1 h2 h3] show ?thesis
    by (simp add: example_defs printed_def)
qed

text \<open>
  Claim C7. When the action of the selected tool raises, \<open>use\<close> raises the same exception:
  the trace ends with the single run of the tool, so the action is not run again, nothing is
  printed or reported, and no result is returned.
\<close>

theorem execution_failure_propagates:
  assumes "tool_calling env tool_string self = (Inr calling, self1)"
    and "select_tool (tools self) (function_name calling) = Inr tool"
    and "last_used_tool env (tools_handler self) \<noteq> Some calling"
    and "\<not> truthy (cache_read env (on_tool_start env calling (tools_handler self))
           (function_name calling) (arguments calling))"
    and "run tool (arguments calling) = Inl e"
  shows "use env tool_string self =
           (Inl e,
            self1\<lparr>tools_handler := on_tool_start env calling (tools_handler self),
                  trace := trace self @
                    [OnToolStart calling,
                     CacheRead (function_name calling) (arguments calling),
                     ToolRun (name tool) (arguments calling)]\<rparr>)"
proof -
  from tool_calling_frame [OF assms(1)] tool_calling_returned [OF assms(1)]
  have same: "tools_handler self1 = tools_handler self" "tools self1 = tools self"
    "trace self1 = trace self" by simp_all
  with assms(3-5) have "use_internal env tool calling self1 =
           (Inl e,
            self1\<lparr>tools_handler := on_tool_start env calling (tools_handler self),
                  trace := trace self @
                    [OnToolStart calling,
                     CacheRead (function_name calling) (arguments calling),
                     ToolRun (name tool) (arguments calling)]\<rparr>)"
    using use_internal_raises [of env self1 calling tool e] by simp
  with assms(1,2) same show ?thesis by (simp add: use_def)
qed

theorem execution_failure_propagates_witness:
  "use (example_env (\<lambda>k. Inr broken_call) PyNone) ''use the broken tool''
     (init None [search_tool, broken_tool]) =
     (Inl (Exception ''boom''),
      (init None [search_tool, broken_tool])
        \<lparr>chain_calls := 1,
         tools_handler := Some broken_call,
         trace := [OnToolStart broken_call,
                   CacheRead ''broken'' (arguments broken_call),
                   ToolRun ''broken'' (arguments broken_call)]\<rparr>)"
proof -
  let ?env = "example_env (\<lambda>k. Inr broken_call) PyNone"
  let ?s = "init None [search_tool, broken_tool]"
  have h1: "tool_calling ?env ''use the broken tool'' ?s =
              (Inr broken_call, ?s\<lparr>chain_calls := 1\<rparr>)"
    by (simp add: tool_calling_success example_env_def init_def)
  have h2: "select_tool (tools ?s) (function_name broken_call) = Inr broken_tool"
    by (simp add: init_def broken_call_def broken_tool_def search_tool_def)
  have h3: "last_used_tool ?env (tools_handler ?s) \<noteq> Some broken_call"
    by (simp add: example_env_def init_def)
  have h4: "\<not> truthy (cache_read ?env (on_tool_start ?env broken_call (tools_handler ?s))
              (function_name broken_call) (arguments broken_call))"
    by (simp add: example_env_def)
  have h5: "run broken_tool (arguments broken_call) = Inl (Exception ''boom'')"
    by (simp add: broken_tool_def)
  from execution_failure_propagates [OF h1 h2 h3 h4 h5] show ?thesis
    by (simp add: example_defs)
qed

section \<open>Extraction and its retries\<close>

text \<open>
  Claim C3, amended. The number of attempts depends on the attempt counter \<open>c\<close> of the
  instance when extraction starts and on the threshold \<open>m\<close>. If the chain raises at every
  invocation, it is invoked exactly \<open>max 1 (m - c + 1)\<close> times and extraction raises the
  exception of the last invocation: three times for \<open>c = 1\<close> and \<open>m = 3\<close>, as \<open>__init__\<close>
  leaves them. If the chain raises twice and then answers a call, extraction returns that
  call with the counter at \<open>c + 2\<close> (3 on a new instance) when \<open>c + 2 \<le> m\<close>; otherwise
  it raises before the third invocation is made.
\<close>

theorem retry_bound_from_counter:
  "((\<forall>k. isl (chain_invoke env k (render env self) tool_string)) \<longrightarrow>
      (\<exists>e s'. tool_calling env tool_string self = (Inl e, s') \<and>
               chain_invoke env (chain_calls s' - 1) (render env self) tool_string = Inl e \<and>
               chain_calls s' =
                 chain_calls self + nat (max_parsing_attempts self - run_attempts self) + 1)) \<and>
   (isl (chain_invoke env (chain_calls self) (render env self) tool_string) \<and>
    isl (chain_invoke env (chain_calls self + 1) (render env self) tool_string) \<and>
    chain_invoke env (chain_calls self + 2) (render env self) tool_string = Inr calling \<and>
    run_attempts self + 2 \<le> max_parsing_attempts self \<longrightarrow>
      (\<exists>s'. tool_calling env tool_string self = (Inr calling, s') \<and>
             run_attempts s' = run_attempts self + 2 \<and>
             chain_calls s' = chain_calls self + 3)) \<and>
   (isl (chain_invoke env (chain_calls self) (render env self) tool_string) \<and>
    isl (chain_invoke env (chain_calls self + 1) (render env self) tool_string) \<and>
    max_parsing_attempts self < run_attempts self + 2 \<longrightarrow>
      (\<exists>e s'. tool_calling env tool_string self = (Inl e, s') \<and>
               chain_calls s' < chain_calls self + 3))"
proof (intro conjI impI)
  assume all: "\<forall>k. isl (chain_invoke env k (render env self) tool_string)"
  then obtain e s' where run: "tool_calling env tool_string self = (Inl e, s')"
    and calls: "chain_calls s' =
                 chain_calls self + nat (max_parsing_attempts self - run_attempts self) + 1"
    using tool_calling_all_fail [of self env tool_string] by blast
  from tool_calling_raised [OF run] run calls
  show "\<exists>e s'. tool_calling env tool_string self = (Inl e, s') \<and>
               chain_invoke env (chain_calls s' - 1) (render env self) tool_string = Inl e \<and>
               chain_calls s' =
                 chain_calls self + nat (max_parsing_attempts self - run_attempts self) + 1"
    by blast
next
  let ?c = "\<lambda>k. chain_invoke env k (render env self) tool_string"
  let ?s1 = "self\<lparr>chain_calls := chain_calls self + 1, run_attempts := run_attempts self + 1\<rparr>"
  let ?s2 = "?s1\<lparr>chain_calls := chain_calls ?s1 + 1, run_attempts := run_attempts ?s1 + 1\<rparr>"
  assume h: "isl (?c (chain_calls self)) \<and> isl (?c (chain_calls self + 1)) \<and>
             ?c (chain_calls self + 2) = Inr calling \<and>
             run_attempts self + 2 \<le> max_parsing_attempts self"
  then obtain e1 e2 where e1: "?c (chain_calls self) = Inl e1"
    and e2: "?c (chain_calls self + 1) = Inl e2"
    by (auto simp: isl_def)
  from e1 h have "tool_calling env tool_string self = tool_calling env tool_string ?s1"
    by (intro tool_calling_retry [of env self tool_string e1]) simp_all
  also from e2 h have "\<dots> = tool_calling env tool_string ?s2"
    by (intro tool_calling_retry [of env ?s1 tool_string e2]) simp_all
  also from h have "\<dots> = (Inr calling, ?s2\<lparr>chain_calls := chain_calls ?s2 + 1\<rparr>)"
    by (intro tool_calling_success) (simp add: add.assoc)
  finally show "\<exists>s'. tool_calling env tool_string self = (Inr calling, s') \<and>
             run_attempts s' = run_attempts self + 2 \<and>
             chain_calls s' = chain_calls self + 3"
    by simp
next
  let ?c = "\<lambda>k. chain_invoke env k (render env self) tool_string"
  let ?s1 = "self\<lparr>chain_calls := chain_calls self + 1, run_attempts := run_attempts self + 1\<rparr>"
  assume h: "isl (?c (chain_calls self)) \<and> isl (?c (chain_calls self + 1)) \<and>
             max_parsing_attempts self < run_attempts self + 2"
  then obtain e1 e2 where e1: "?c (chain_calls self) = Inl e1"
    and e2: "?c (chain_calls self + 1) = Inl e2"
    by (auto simp: isl_def)
  show "\<exists>e s'. tool_calling env tool_string self = (Inl e, s') \<and>
               chain_calls s' < chain_calls self + 3"
  proof (cases "max_parsing_attempts self < run_attempts self + 1")
    case True
    with e1 show ?thesis by (simp add: tool_calling_exceeded)
  next
    case False
    with e1 have "tool_calling env tool_string self = tool_calling env tool_string ?s1"
      by (intro tool_calling_retry [of env self tool_string e1]) simp_all
    moreover from e2 h have "tool_calling env tool_string ?s1 =
        (Inl e2, ?s1\<lparr>chain_calls := chain_calls ?s1 + 1, run_attempts := run_attempts ?s1 + 1,
                     trace := trace ?s1 @ [TelemetryToolUsageError]\<rparr>)"
      by (intro tool_calling_exceeded) simp_all
    ultimately show ?thesis by simp
  qed
qed

theorem retry_bound_from_counter_witness:
  "tool_calling (example_env always_failing PyNone) ''find x'' (init None [search_tool]) =
     (Inl (Exception ''later''),
      (init None [search_tool])
        \<lparr>chain_calls := 3, run_attempts := 4, trace := [TelemetryToolUsageError]\<rparr>) \<and>
   tool_calling (example_env failing_twice PyNone) ''find x'' (init None [search_tool]) =
     (Inr search_call, (init None [search_tool])\<lparr>chain_calls := 3, run_attempts := 3\<rparr>) \<and>
   tool_calling (example_env failing_twice PyNone) ''find x''
     ((init None [search_tool])\<lparr>run_attempts := 2\<rparr>) =
     (Inl (Exception ''malformed output''),
      (init None [search_tool])
        \<lparr>chain_calls := 2, run_attempts := 4, trace := [TelemetryToolUsageError]\<rparr>)"
proof -
  let ?fail = "example_env always_failing PyNone"
  let ?twice = "example_env failing_twice PyNone"
  let ?s = "init None [search_tool]"
  let ?s2 = "(init None [search_tool])\<lparr>run_attempts := 2\<rparr>"
  have fails: "\<forall>k. isl (chain_invoke ?fail k (render ?fail ?s) ''find x'')"
    by (simp add: example_env_def always_failing_def)
  have twice: "isl (chain_invoke ?twice (chain_calls ?s) (render ?twice ?s) ''find x'') \<and>
     isl (chain_invoke ?twice (chain_calls ?s + 1) (render ?twice ?s) ''find x'') \<and>
     chain_invoke ?twice (chain_calls ?s + 2) (render ?twice ?s) ''find x'' = Inr search_call \<and>
     run_attempts ?s + 2 \<le> max_parsing_attempts ?s"
    by (simp add: example_env_def failing_twice_def init_def)
  have late: "isl (chain_invoke ?twice (chain_calls ?s2) (render ?twice ?s2) ''find x'') \<and>
     isl (chain_invoke ?twice (chain_calls ?s2 + 1) (render ?twice ?s2) ''find x'') \<and>
     max_parsing_attempts ?s2 < run_attempts ?s2 + 2"
    by (simp add: example_env_def failing_twice_def init_def)
  note a = retry_bound_from_counter [of ?fail ?s "''find x''" search_call,
      THEN conjunct1, THEN mp, OF fails]
  note b = retry_bound_from_counter [of ?twice ?s "''find x''" search_call,
      THEN conjunct2, THEN conjunct1, THEN mp, OF twice]
  note c = retry_bound_from_counter [of ?twice ?s2 "''find x''" search_call,
      THEN conjunct2, THEN conjunct2, THEN mp, OF late]
  show ?thesis using a b c
    by (simp add: example_defs tool_calling_eval)
qed

text \<open>
  The claim as first stated fixes three attempts and a counter of 3 for any extraction. On
  an instance that has served one invocation in which the chain raised once (counter 2), a
  chain that raises at every further invocation is invoked twice, not three times, and a
  chain that raises twice and would then answer has its second exception raised instead.
\<close>

theorem retry_bound_after_earlier_failure_counterexample:
  "run_attempts (snd (use (example_env answering_second_only PyNone) ''find x''
                       (init None [search_tool, calc_tool]))) = 2 \<and>
   chain_calls (snd (use (example_env answering_second_only PyNone) ''find x''
                       (init None [search_tool, calc_tool]))) = 2 \<and>
   isl (answering_second_only 2) \<and> isl (answering_second_only 3) \<and>
   isl (answering_second_only 4) \<and>
   fst (tool_calling (example_env answering_second_only PyNone) ''find y''
          (snd (use (example_env answering_second_only PyNone) ''find x''
                  (init None [search_tool, calc_tool])))) = Inl (Exception ''malformed output'') \<and>
   chain_calls (snd (tool_calling (example_env answering_second_only PyNone) ''find y''
          (snd (use (example_env answering_second_only PyNone) ''find x''
                  (init None [search_tool, calc_tool]))))) = 2 + 2 \<and>
   isl (answering_second_and_fifth 2) \<and> isl (answering_second_and_fifth 3) \<and>
   answering_second_and_fifth 4 = Inr calc_call \<and>
   chain_calls (snd (use (example_env answering_second_and_fifth PyNone) ''find x''
                       (init None [search_tool, calc_tool]))) = 2 \<and>
   fst (tool_calling (example_env answering_second_and_fifth PyNone) ''add''
          (snd (use (example_env answering_second_and_fifth PyNone) ''find x''
                  (init None [search_tool, calc_tool])))) = Inl (Exception ''malformed output'')"
  by (simp add: example_defs use_eval tool_calling_eval)

text \<open>
  Claim C4, amended. When an attempt fails and the incremented counter exceeds the
  threshold, the chain is not invoked again, the error is reported to telemetry and the
  exception of that attempt is raised, so that no call is returned; and whenever extraction
  raises, the exception is the one of the last invocation of the chain, the counter exceeds
  the threshold and the telemetry error is the one event added to the trace.
\<close>

theorem extraction_failure_is_last:
  "(chain_invoke env (chain_calls self) (render env self) tool_string = Inl e \<and>
    max_parsing_attempts self < run_attempts self + 1 \<longrightarrow>
      tool_calling env tool_string self =
        (Inl e, self\<lparr>chain_calls := chain_calls self + 1,
                      run_attempts := run_attempts self + 1,
                      trace := trace self @ [TelemetryToolUsageError]\<rparr>)) \<and>
   (tool_calling env tool_string self = (Inl e, s') \<longrightarrow>
      chain_calls self < chain_calls s' \<and>
      chain_invoke env (chain_calls s' - 1) (render env self) tool_string = Inl e \<and>
      max_parsing_attempts s' < run_attempts s' \<and>
      trace s' = trace self @ [TelemetryToolUsageError])"
  using tool_calling_exceeded [of env self tool_string e]
    tool_calling_raised [of env tool_string self e s']
    tool_calling_frame [of env tool_string self "Inl e" s']
  by blast

theorem extraction_failure_is_last_witness:
  "chain_invoke (example_env always_failing PyNone) 2
     (render (example_env always_failing PyNone) (init None [search_tool])) ''find x''
     = Inl (Exception ''later'') \<and>
   tool_calling (example_env always_failing PyNone) ''find x''
     ((init None [search_tool])\<lparr>chain_calls := 2, run_attempts := 3\<rparr>) =
     (Inl (Exception ''later''),
      (init None [search_tool])
        \<lparr>chain_calls := 3, run_attempts := 4, trace := [TelemetryToolUsageError]\<rparr>) \<and>
   tool_calling (example_env always_failing PyNone) ''find x'' (init None [search_tool]) =
     (Inl (Exception ''later''),
      (init None [search_tool])
        \<lparr>chain_calls := 3, run_attempts := 4, trace := [TelemetryToolUsageError]\<rparr>)"
proof -
  let ?env = "example_env always_failing PyNone"
  let ?s = "(init None [search_tool])\<lparr>chain_calls := 2, run_attempts := 3\<rparr>"
  let ?s' = "(init None [search_tool])
        \<lparr>chain_calls := 3, run_attempts := 4, trace := [TelemetryToolUsageError]\<rparr>"
  have h1: "chain_invoke ?env (chain_calls ?s) (render ?env ?s) ''find x'' = Inl (Exception ''later'') \<and>
     max_parsing_attempts ?s < run_attempts ?s + 1"
    by (simp add: example_defs)
  have h2: "tool_calling ?env ''find x'' (init None [search_tool]) = (Inl (Exception ''later''), ?s')"
    by (simp add: example_defs tool_calling_eval)
  from extraction_failure_is_last [of ?env ?s "''find x''" "Exception ''later''"] h1
    extraction_failure_is_last [of ?env "init None [search_tool]" "''find x''" "Exception ''later''" ?s'] h2
  show ?thesis by (simp add: example_defs)
qed

text \<open>
  The claim as first stated names the failure of the first attempt. With a chain whose
  first, second and later invocations raise different exceptions, extraction raises the
  one of the third invocation, which differs from the first.
\<close>

theorem first_failure_not_propagated_counterexample:
  "chain_invoke (example_env always_failing PyNone) 0
     (render (example_env always_failing PyNone) (init None [search_tool])) ''find x''
     = Inl (Exception ''first'') \<and>
   fst (tool_calling (example_env always_failing PyNone) ''find x'' (init None [search_tool]))
     = Inl (Exception ''later'') \<and>
   Exception ''later'' \<noteq> Exception ''first''"
  by (simp add: example_defs tool_calling_eval)

section \<open>The attempt counter across invocations\<close>

text \<open>
  Claim C9, amended. The attempt counter is a field of the instance: \<open>__init__\<close> sets it
  to 1 and nothing resets it. Every invocation, whether it returns or raises, leaves the
  counter at its value when the invocation started plus the number of chain invocations
  that raised during this invocation; when the invocation returns, the last event is the
  usage telemetry, and it carries that number. On the first invocation of an instance this
  is 1 plus the number of failures.
\<close>

theorem attempts_accumulate:
  "run_attempts (init handler tls) = 1 \<and>
   (use env tool_string self = (r, s') \<longrightarrow>
      run_attempts s' = run_attempts self + int (delegate_failures env tool_string self s')) \<and>
   (use env tool_string self = (Inr result, s') \<longrightarrow>
      (\<exists>tool_name. last (trace s') =
         TelemetryToolUsage tool_name
           (run_attempts self + int (delegate_failures env tool_string self s'))))"
proof (intro conjI impI)
  show "run_attempts (init handler tls) = 1" by (simp add: init_def)
next
  assume "use env tool_string self = (r, s')"
  then show "run_attempts s' = run_attempts self + int (delegate_failures env tool_string self s')"
  proof (cases rule: use_cases)
    case (extraction e)
    then show ?thesis by (simp add: tool_calling_attempts)
  next
    case (selection calling e)
    then show ?thesis by (simp add: tool_calling_attempts)
  next
    case (used calling self1 tool)
    from use_internal_frame [OF used(3)] tool_calling_attempts [OF used(1)]
      delegate_failures_cong [of s' self1 env tool_string self]
    show ?thesis by simp
  qed
next
  assume u: "use env tool_string self = (Inr result, s')"
  then show "\<exists>tool_name. last (trace s') =
         TelemetryToolUsage tool_name
           (run_attempts self + int (delegate_failures env tool_string self s'))"
  proof (cases rule: use_cases)
    case (used calling self1 tool)
    from use_internal_frame [OF used(3)] tool_calling_attempts [OF used(1)]
      delegate_failures_cong [of s' self1 env tool_string self]
      use_internal_reports [OF used(3)]
    show ?thesis by simp
  qed simp_all
qed

theorem attempts_accumulate_witness:
  "use (example_env failing_once PyNone) ''find x'' (init None [search_tool, calc_tool]) =
     (Inr (PyStr ''42''),
      (init None [search_tool, calc_tool])
        \<lparr>run_attempts := 2, chain_calls := 2, tools_handler := Some search_call,
         trace := [OnToolStart search_call,
                   CacheRead ''search'' (arguments search_call),
                   ToolRun ''search'' (arguments search_call),
                   OnToolEnd search_call (PyStr ''42''),
                   PrinterPrint ([CHR 0x0A, CHR 0x0A] @ ''42'' @ [CHR 0x0A]) ''yellow'',
                   TelemetryToolUsage ''search'' 2]\<rparr>) \<and>
   delegate_failures (example_env failing_once PyNone) ''find x''
     (init None [search_tool, calc_tool])
     (snd (use (example_env failing_once PyNone) ''find x'' (init None [search_tool, calc_tool]))) = 1"
proof -
  let ?env = "example_env failing_once PyNone"
  let ?s = "init None [search_tool, calc_tool]"
  let ?s' = "?s\<lparr>run_attempts := 2, chain_calls := 2, tools_handler := Some search_call,
         trace := [OnToolStart search_call,
                   CacheRead ''search'' (arguments search_call),
                   ToolRun ''search'' (arguments search_call),
                   OnToolEnd search_call (PyStr ''42''),
                   PrinterPrint ([CHR 0x0A, CHR 0x0A] @ ''42'' @ [CHR 0x0A]) ''yellow'',
                   TelemetryToolUsage ''search'' 2]\<rparr>"
  have u: "use ?env ''find x'' ?s = (Inr (PyStr ''42''), ?s')"
    by (simp add: example_defs use_eval tool_calling_eval)
  note a = attempts_accumulate [of None "[search_tool, calc_tool]" ?env "''find x''" ?s
      "Inr (PyStr ''42'')" ?s' "PyStr ''42''"]
  from a [THEN conjunct2, THEN conjunct1, THEN mp, OF u]
    a [THEN conjunct2, THEN conjunct2, THEN mp, OF u] u
  show ?thesis by (simp add: init_def)
qed

text \<open>
  The claim as first stated has the counter start at 1 for each invocation. On one instance,
  after a first invocation in which the chain raised once, a second invocation in which the
  chain does not raise at all reports 2 attempts to telemetry, where 1 plus the failures of
  that invocation is 1.
\<close>

theorem attempts_not_reset_counterexample:
  "run_attempts (init (None :: ToolCalling option) [search_tool, calc_tool]) = 1 \<and>
   fst (use (example_env failing_once PyNone) ''add''
          (snd (use (example_env failing_once PyNone) ''find x''
                  (init None [search_tool, calc_tool])))) = Inr (PyInt 4) \<and>
   delegate_failures (example_env failing_once PyNone) ''add''
     (snd (use (example_env failing_once PyNone) ''find x'' (init None [search_tool, calc_tool])))
     (snd (use (example_env failing_once PyNone) ''add''
             (snd (use (example_env failing_once PyNone) ''find x''
                     (init None [search_tool, calc_tool]))))) = 0 \<and>
   last (trace (snd (use (example_env failing_once PyNone) ''add''
             (snd (use (example_env failing_once PyNone) ''find x''
                     (init None [search_tool, calc_tool])))))) = TelemetryToolUsage ''calc'' 2"
  by (simp add: example_defs use_eval tool_calling_eval delegate_failures_def)

section \<open>Repeated usage across invocations\<close>

text \<open>
  Claim C10. Starting from a handler whose last used call is the call that every
  extraction resolves to (the chain answers it at each invocation, for a tool of the
  instance), any number of consecutive invocations all return the repeated usage message.
  The trace gains nothing but the print and the telemetry of each invocation, so neither
  \<open>on_tool_start\<close> nor \<open>on_tool_end\<close> is called, the handler is never changed and the last
  used call is still that call at the end.
\<close>

theorem repeated_usage_persists:
  assumes "last_used_tool env (tools_handler self) = Some calling"
    and "select_tool (tools self) (function_name calling) = Inr tool"
    and "\<forall>k tool_string. chain_calls self \<le> k \<longrightarrow>
           chain_invoke env k (render env self) tool_string = Inr calling"
  shows "use_all env tool_strings self =
           (replicate (length tool_strings) (Inr (repeated_usage_message env calling)),
            self\<lparr>chain_calls := chain_calls self + length tool_strings,
                 trace := trace self @
                   concat (replicate (length tool_strings)
                     [PrinterPrint (printed env (repeated_usage_message env calling)) ''yellow'',
                      TelemetryToolUsage (name tool) (run_attempts self)])\<rparr>) \<and>
         last_used_tool env (tools_handler (snd (use_all env tool_strings self))) = Some calling"
  using assms
proof (induction tool_strings arbitrary: self)
  case Nil
  then show ?case by simp
next
  case (Cons tool_string rest)
  let ?events = "[PrinterPrint (printed env (repeated_usage_message env calling)) ''yellow'',
                  TelemetryToolUsage (name tool) (run_attempts self)]"
  let ?self1 = "self\<lparr>chain_calls := chain_calls self + 1, trace := trace self @ ?events\<rparr>"
  from Cons.prems have now: "chain_invoke env (chain_calls self) (render env self) tool_string = Inr calling"
    by simp
  have first: "use env tool_string self = (Inr (repeated_usage_message env calling), ?self1)"
    using use_repeated [OF Cons.prems(1,2) now] .
  have later: "\<forall>k tool_string. chain_calls ?self1 \<le> k \<longrightarrow>
           chain_invoke env k (render env ?self1) tool_string = Inr calling"
    using Cons.prems(3) by simp
  have "last_used_tool env (tools_handler ?self1) = Some calling"
    and "select_tool (tools ?self1) (function_name calling) = Inr tool"
    using Cons.prems(1,2) by simp_all
  from Cons.IH [OF this later] first Cons.prems(1) show ?case
    by (simp add: Let_def split: prod.splits)
qed

theorem repeated_usage_persists_witness:
  "use_all (example_env (\<lambda>k. Inr search_call) PyNone) [''find x'', ''find x again'', ''and again'']
     (init (Some search_call) [search_tool]) =
     ([Inr (PyStr ''task_repeated_usage search''), Inr (PyStr ''task_repeated_usage search''),
       Inr (PyStr ''task_repeated_usage search'')],
      (init (Some search_call) [search_tool])
        \<lparr>chain_calls := 3,
         trace :=
           [PrinterPrint ([CHR 0x0A, CHR 0x0A] @ ''task_repeated_usage search'' @ [CHR 0x0A]) ''yellow'',
            TelemetryToolUsage ''search'' 1,
            PrinterPrint ([CHR 0x0A, CHR 0x0A] @ ''task_repeated_usage search'' @ [CHR 0x0A]) ''yellow'',
            TelemetryToolUsage ''search'' 1,
            PrinterPrint ([CHR 0x0A, CHR 0x0A] @ ''task_repeated_usage search'' @ [CHR 0x0A]) ''yellow'',
            TelemetryToolUsage ''search'' 1]\<rparr>)"
proof -
  let ?env = "example_env (\<lambda>k. Inr search_call) PyNone"
  let ?s = "init (Some search_call) [search_tool]"
  have h1: "last_used_tool ?env (tools_handler ?s) = Some search_call"
    by (simp add: example_env_def init_def)
  have h2: "select_tool (tools ?s) (function_name search_call) = Inr search_tool"
    by (simp add: init_def search_call_def search_tool_def)
  have h3: "\<forall>k tool_string. chain_calls ?s \<le> k \<longrightarrow>
           chain_invoke ?env k (render ?env ?s) tool_string = Inr search_call"
    by (simp add: example_env_def)
  from repeated_usage_persists [OF h1 h2 h3, of "[''find x'', ''find x again'', ''and again'']"]
  show ?thesis
    by (simp add: example_defs printed_def repeated_usage_message_def)
qed

end
